theory Spec2Isabelle
  imports Complex_Main
begin

section \<open>Entity hierarchy with enforced policies\<close>

text \<open>
  A shallow embedding of \<^verbatim>\<open>examples/sdk/python/10-entity-hierarchy/main.py\<close>:
  the dataclasses \<^verbatim>\<open>EnforcedRule\<close>, \<^verbatim>\<open>EntityProfile\<close> and
  \<^verbatim>\<open>EffectivePolicy\<close>, the module-level store \<^verbatim>\<open>entities\<close>, and the
  functions \<^verbatim>\<open>get_ancestry\<close>, \<^verbatim>\<open>compute_effective_policies\<close> and
  \<^verbatim>\<open>validate_policy_change\<close>.
\<close>

subsection \<open>Python values\<close>

text \<open>
  Rule values and proposed values have the Python type \<^verbatim>\<open>Any\<close>. The model covers
  the JSON-shaped values the policies carry: \<^verbatim>\<open>None\<close>, booleans, unbounded
  integers, finite floats (each by its exact rational value, which is what Python's
  comparisons between \<^verbatim>\<open>int\<close> and \<^verbatim>\<open>float\<close> use), strings, lists, and dicts
  with string keys (an association list with distinct keys). NaN and the infinities are
  outside the model.
\<close>

datatype pyval =
    VNone
  | VBool bool
  | VInt int
  | VFloat rat
  | VStr string
  | VList "pyval list"
  | VDict "(string \<times> pyval) list"

datatype py_error = TypeError

text \<open>
  The numeric value of a \<^verbatim>\<open>bool\<close>, \<^verbatim>\<open>int\<close> or \<^verbatim>\<open>float\<close>;
  \<^verbatim>\<open>bool\<close> is a subclass of \<^verbatim>\<open>int\<close> in Python, so \<^verbatim>\<open>True\<close> counts as 1.
\<close>

fun num_of :: "pyval \<Rightarrow> rat option" where
  "num_of (VBool b) = Some (if b then 1 else 0)"
| "num_of (VInt i) = Some (of_int i)"
| "num_of (VFloat q) = Some q"
| "num_of _ = None"

text \<open>\<^verbatim>\<open>isinstance(v, (int, float))\<close> and \<^verbatim>\<open>isinstance(v, list)\<close>.\<close>

fun is_number :: "pyval \<Rightarrow> bool" where
  "is_number (VBool _) = True"
| "is_number (VInt _) = True"
| "is_number (VFloat _) = True"
| "is_number _ = False"

fun is_list :: "pyval \<Rightarrow> bool" where
  "is_list (VList _) = True"
| "is_list _ = False"

fun is_str :: "pyval \<Rightarrow> bool" where
  "is_str (VStr _) = True"
| "is_str _ = False"

text \<open>Lists and dicts have no hash; every other value of the model has one.\<close>

fun hashable :: "pyval \<Rightarrow> bool" where
  "hashable (VList _) = False"
| "hashable (VDict _) = False"
| "hashable _ = True"

text \<open>
  Python's \<^verbatim>\<open>==\<close>: numbers compare by value across \<^verbatim>\<open>bool\<close>, \<^verbatim>\<open>int\<close> and
  \<^verbatim>\<open>float\<close>, lists element by element, dicts key by key, and values of different
  kinds are unequal. On these values \<^verbatim>\<open>a != b\<close> is \<^verbatim>\<open>not (a == b)\<close>.
\<close>

fun py_eq :: "pyval \<Rightarrow> pyval \<Rightarrow> bool"
  and py_eq_list :: "pyval list \<Rightarrow> pyval list \<Rightarrow> bool"
  and py_eq_items :: "(string \<times> pyval) list \<Rightarrow> (string \<times> pyval) list \<Rightarrow> bool" where
  "py_eq (VList xs) (VList ys) = py_eq_list xs ys"
| "py_eq (VDict kvs) (VDict kws) = (length kvs = length kws \<and> py_eq_items kvs kws)"
| "py_eq (VStr s) (VStr t) = (s = t)"
| "py_eq VNone VNone = True"
| "py_eq a b = (case (num_of a, num_of b) of (Some x, Some y) \<Rightarrow> x = y | _ \<Rightarrow> False)"
| "py_eq_list [] [] = True"
| "py_eq_list (x # xs) (y # ys) = (py_eq x y \<and> py_eq_list xs ys)"
| "py_eq_list _ _ = False"
| "py_eq_items [] kws = True"
| "py_eq_items ((k, v) # kvs) kws =
     ((case map_of kws k of None \<Rightarrow> False | Some w \<Rightarrow> py_eq v w) \<and> py_eq_items kvs kws)"

text \<open>
  \<^verbatim>\<open>a < b\<close> and \<^verbatim>\<open>a > b\<close> where \<open>a\<close> is known to be a number (the source
  tests \<^verbatim>\<open>isinstance\<close> first): two numbers compare by value; a number against
  \<^verbatim>\<open>None\<close>, a string, a list or a dict raises \<^verbatim>\<open>TypeError\<close>.
\<close>

definition py_lt :: "pyval \<Rightarrow> pyval \<Rightarrow> py_error + bool" where
  "py_lt a b =
     (case (num_of a, num_of b) of (Some x, Some y) \<Rightarrow> Inr (x < y) | _ \<Rightarrow> Inl TypeError)"

definition py_gt :: "pyval \<Rightarrow> pyval \<Rightarrow> py_error + bool" where
  "py_gt a b =
     (case (num_of a, num_of b) of (Some x, Some y) \<Rightarrow> Inr (x > y) | _ \<Rightarrow> Inl TypeError)"

text \<open>
  \<^verbatim>\<open>v in set(xs)\<close> for hashable values: some element equals \<open>v\<close> (equal values
  have equal hashes).
\<close>

definition py_in :: "pyval \<Rightarrow> pyval list \<Rightarrow> bool" where
  "py_in v xs = list_ex (py_eq v) xs"

text \<open>
  \<^verbatim>\<open>sep.join(items)\<close>: every item must be a \<^verbatim>\<open>str\<close>, otherwise
  \<^verbatim>\<open>TypeError\<close>.
\<close>

fun str_items :: "pyval list \<Rightarrow> py_error + string list" where
  "str_items [] = Inr []"
| "str_items (VStr s # vs) =
     (case str_items vs of Inl e \<Rightarrow> Inl e | Inr ss \<Rightarrow> Inr (s # ss))"
| "str_items (_ # vs) = Inl TypeError"

fun join_strs :: "string \<Rightarrow> string list \<Rightarrow> string" where
  "join_strs sep [] = []"
| "join_strs sep [s] = s"
| "join_strs sep (s # t # ss) = s @ sep @ join_strs sep (t # ss)"

definition py_join :: "string \<Rightarrow> pyval list \<Rightarrow> py_error + string" where
  "py_join sep items =
     (case str_items items of Inl e \<Rightarrow> Inl e | Inr ss \<Rightarrow> Inr (join_strs sep ss))"

text \<open>
  An f-string, as its pieces in order: literal text (with the interpolated \<^verbatim>\<open>str\<close>
  values already spliced in), \<^verbatim>\<open>{v}\<close> for a value that is not known to be a string
  (rendered by \<^verbatim>\<open>str(v)\<close>), and \<^verbatim>\<open>{json.dumps(v)}\<close>. Neither rendering can fail on
  the values of the model.
\<close>

datatype fpart = Lit string | Str pyval | JsonDumps pyval

type_synonym fstring = "fpart list"

subsection \<open>The dataclasses and the store\<close>

record EnforcedRule =
  rule_id :: string
  rule_path :: string
  rule_value :: pyval
  rule_enforcement :: string
  rule_reason :: string

record EntityProfile =
  profile_id :: string
  profile_type :: string
  display_name :: string
  entity_type :: string
  description :: "string option"
  parent :: "string option"
  children :: "string list"
  inherit_policies :: bool
  depth :: int
  enforced_rules :: "EnforcedRule list"
  policies :: "(string \<times> pyval) list"
  direct_members :: "string list"
  admins :: "string list"

record EffectivePolicy =
  eff_value :: pyval
  eff_source :: string
  eff_enforcement :: string
  eff_locked :: bool

text \<open>
  The module-level dict \<^verbatim>\<open>entities\<close>, passed explicitly. The functions only read it.
\<close>

type_synonym store = "string \<rightharpoonup> EntityProfile"

text \<open>
  What \<^verbatim>\<open>validate_policy_change\<close> returns: \<^verbatim>\<open>{"allowed": True}\<close> or
  \<^verbatim>\<open>{"allowed": False, "reason": ...}\<close>.
\<close>

datatype validation = Allowed | Denied fstring

fun allowed :: "validation \<Rightarrow> bool" where
  "allowed Allowed = True"
| "allowed (Denied _) = False"

subsection \<open>get_ancestry\<close>

text \<open>
  \<^verbatim>\<open>while current and current.parent\<close>: the loop goes on while the entity was found
  and its parent is neither \<^verbatim>\<open>None\<close> nor the empty string. Nothing bounds the
  number of iterations, so the loop is a partial function: \<open>None\<close> stands for a walk
  that never returns.
\<close>

partial_function (option) ancestry_loop ::
  "store \<Rightarrow> EntityProfile option \<Rightarrow> string list \<Rightarrow> string list option" where
  "ancestry_loop entities current result =
     (case current of
        None \<Rightarrow> Some result
      | Some c \<Rightarrow>
          (case parent c of
             None \<Rightarrow> Some result
           | Some p \<Rightarrow>
               if p = [] then Some result
               else ancestry_loop entities (entities p) (result @ [p])))"

declare ancestry_loop.simps [code]

definition get_ancestry :: "store \<Rightarrow> string \<Rightarrow> string list option" where
  "get_ancestry entities entity_id = ancestry_loop entities (entities entity_id) [entity_id]"

subsection \<open>validate_policy_change\<close>

text \<open>
  The body of the inner loop for one rule: \<open>Inr None\<close> when the loop goes on to the next
  rule, \<open>Inr (Some reason)\<close> when the function returns \<^verbatim>\<open>allowed: False\<close> with that
  reason, \<open>Inl TypeError\<close> when an operation raises.
  In the \<^verbatim>\<open>subset\<close> branch \<^verbatim>\<open>set(rule.value)\<close> hashes every element of the rule's
  list, the comprehension hashes every element of the proposed list, and
  \<^verbatim>\<open>", ".join(invalid_items)\<close> needs every invalid item to be a string.
\<close>

definition check_rule ::
  "string \<Rightarrow> pyval \<Rightarrow> EntityProfile \<Rightarrow> EnforcedRule \<Rightarrow> py_error + fstring option" where
  "check_rule path new_value entity rule =
     (if rule_path rule \<noteq> path then Inr None
      else if rule_enforcement rule = ''locked'' then
        (if \<not> py_eq new_value (rule_value rule) then
           Inr (Some [Lit (''\"'' @ path @ ''\" is locked by '' @ display_name entity
                           @ '': '' @ rule_reason rule)])
         else Inr None)
      else if rule_enforcement rule = ''min'' then
        (if is_number new_value then
           (case py_lt new_value (rule_value rule) of
              Inl e \<Rightarrow> Inl e
            | Inr True \<Rightarrow>
                Inr (Some [Lit (''\"'' @ path @ ''\" minimum is ''), Str (rule_value rule),
                           Lit ('' (set by '' @ display_name entity @ '')'')])
            | Inr False \<Rightarrow> Inr None)
         else Inr None)
      else if rule_enforcement rule = ''max'' then
        (if is_number new_value then
           (case py_gt new_value (rule_value rule) of
              Inl e \<Rightarrow> Inl e
            | Inr True \<Rightarrow>
                Inr (Some [Lit (''\"'' @ path @ ''\" maximum is ''), Str (rule_value rule),
                           Lit ('' (set by '' @ display_name entity @ '')'')])
            | Inr False \<Rightarrow> Inr None)
         else Inr None)
      else if rule_enforcement rule = ''subset'' then
        (case (new_value, rule_value rule) of
           (VList new_items, VList parent_items) \<Rightarrow>
             if \<not> list_all hashable parent_items then Inl TypeError
             else if \<not> list_all hashable new_items then Inl TypeError
             else
               (let invalid_items = filter (\<lambda>v. \<not> py_in v parent_items) new_items in
                if invalid_items \<noteq> [] then
                  (case py_join '', '' invalid_items of
                     Inl e \<Rightarrow> Inl e
                   | Inr names \<Rightarrow>
                       Inr (Some [Lit (''\"'' @ path @ ''\" must be subset of ''),
                                  JsonDumps (rule_value rule),
                                  Lit (''. Invalid: '' @ names)]))
                else Inr None)
         | _ \<Rightarrow> Inr None)
      else Inr None)"

text \<open>The inner loop \<^verbatim>\<open>for rule in entity.enforced_rules\<close>.\<close>

fun check_rules ::
  "string \<Rightarrow> pyval \<Rightarrow> EntityProfile \<Rightarrow> EnforcedRule list \<Rightarrow> py_error + fstring option" where
  "check_rules path new_value entity [] = Inr None"
| "check_rules path new_value entity (rule # rules) =
     (case check_rule path new_value entity rule of
        Inl e \<Rightarrow> Inl e
      | Inr (Some why) \<Rightarrow> Inr (Some why)
      | Inr None \<Rightarrow> check_rules path new_value entity rules)"

text \<open>
  The outer loop \<^verbatim>\<open>for ancestor_id in ancestry\<close>, in the order of the list: the
  entity's own id is skipped, and so is an id the store does not know or an entity
  whose rule list is empty.
\<close>

fun check_ancestors ::
  "store \<Rightarrow> string \<Rightarrow> string \<Rightarrow> pyval \<Rightarrow> string list \<Rightarrow> py_error + validation" where
  "check_ancestors entities entity_id path new_value [] = Inr Allowed"
| "check_ancestors entities entity_id path new_value (ancestor_id # ancestry) =
     (if ancestor_id = entity_id then
        check_ancestors entities entity_id path new_value ancestry
      else
        (case entities ancestor_id of
           None \<Rightarrow> check_ancestors entities entity_id path new_value ancestry
         | Some entity \<Rightarrow>
             if enforced_rules entity = [] then
               check_ancestors entities entity_id path new_value ancestry
             else
               (case check_rules path new_value entity (enforced_rules entity) of
                  Inl e \<Rightarrow> Inl e
                | Inr (Some why) \<Rightarrow> Inr (Denied why)
                | Inr None \<Rightarrow> check_ancestors entities entity_id path new_value ancestry)))"

text \<open>
  The result is \<open>None\<close> when \<^verbatim>\<open>get_ancestry\<close> never returns, \<open>Some (Inl TypeError)\<close>
  when the call raises, and \<open>Some (Inr v)\<close> when it returns the dict \<open>v\<close>.
\<close>

definition validate_policy_change ::
  "store \<Rightarrow> string \<Rightarrow> string \<Rightarrow> pyval \<Rightarrow> (py_error + validation) option" where
  "validate_policy_change entities entity_id path new_value =
     (case get_ancestry entities entity_id of
        None \<Rightarrow> None
      | Some ancestry \<Rightarrow> Some (check_ancestors entities entity_id path new_value ancestry))"

subsection \<open>compute_effective_policies\<close>

definition effective_of :: "EntityProfile \<Rightarrow> EnforcedRule \<Rightarrow> EffectivePolicy" where
  "effective_of entity rule =
     \<lparr> eff_value = rule_value rule,
       eff_source = display_name entity,
       eff_enforcement = rule_enforcement rule,
       eff_locked = (rule_enforcement rule = ''locked'') \<rparr>"

fun apply_rules ::
  "EntityProfile \<Rightarrow> EnforcedRule list \<Rightarrow> (string \<rightharpoonup> EffectivePolicy)
     \<Rightarrow> (string \<rightharpoonup> EffectivePolicy)" where
  "apply_rules entity [] result = result"
| "apply_rules entity (rule # rules) result =
     apply_rules entity rules (result(rule_path rule \<mapsto> effective_of entity rule))"

fun apply_entities ::
  "store \<Rightarrow> string list \<Rightarrow> (string \<rightharpoonup> EffectivePolicy) \<Rightarrow> (string \<rightharpoonup> EffectivePolicy)" where
  "apply_entities entities [] result = result"
| "apply_entities entities (ancestor_id # ids) result =
     (case entities ancestor_id of
        None \<Rightarrow> apply_entities entities ids result
      | Some entity \<Rightarrow>
          if enforced_rules entity = [] then apply_entities entities ids result
          else apply_entities entities ids (apply_rules entity (enforced_rules entity) result))"

definition compute_effective_policies ::
  "store \<Rightarrow> string \<Rightarrow> (string \<rightharpoonup> EffectivePolicy) option" where
  "compute_effective_policies entities entity_id =
     (case get_ancestry entities entity_id of
        None \<Rightarrow> None
      | Some ancestry \<Rightarrow> Some (apply_entities entities (rev ancestry) Map.empty))"

subsection \<open>The hierarchy the functions walk\<close>

text \<open>
  The parent the walk of \<^verbatim>\<open>get_ancestry\<close> moves to from the id \<open>x\<close>: the
  \<^verbatim>\<open>parent\<close> field of the entity stored under \<open>x\<close>, where a missing entity, a
  \<^verbatim>\<open>None\<close> parent and an empty parent string all mean that there is none.
\<close>

definition parent_id :: "store \<Rightarrow> string \<Rightarrow> string option" where
  "parent_id entities x =
     (case entities x of
        None \<Rightarrow> None
      | Some c \<Rightarrow> (case parent c of None \<Rightarrow> None | Some p \<Rightarrow> if p = [] then None else Some p))"

definition parent_rel :: "store \<Rightarrow> (string \<times> string) set" where
  "parent_rel entities = {(p, c). parent_id entities c = Some p}"

text \<open>
  The invariant of the data model: the store is finite (a dict) and the parent chain is
  acyclic.
\<close>

definition tree_store :: "store \<Rightarrow> bool" where
  "tree_store entities \<longleftrightarrow> finite (dom entities) \<and> acyclic (parent_rel entities)"

text \<open>\<open>ancestor_of entities a d\<close>: \<open>a\<close> is a strict ancestor of \<open>d\<close>, at any depth.\<close>

inductive ancestor_of :: "store \<Rightarrow> string \<Rightarrow> string \<Rightarrow> bool" for entities where
  parent: "parent_id entities d = Some a \<Longrightarrow> ancestor_of entities a d"
| step: "parent_id entities d = Some p \<Longrightarrow> ancestor_of entities a p \<Longrightarrow> ancestor_of entities a d"

text \<open>
  \<open>chain entities x xs\<close>: \<open>xs\<close> lists the strict ancestors of \<open>x\<close>, nearest first, up
  to an id that has no parent. A chain is a finite list, so an id on a cycle has none.
\<close>

inductive chain :: "store \<Rightarrow> string \<Rightarrow> string list \<Rightarrow> bool" for entities where
  root: "parent_id entities x = None \<Longrightarrow> chain entities x []"
| link: "parent_id entities x = Some p \<Longrightarrow> chain entities p ps \<Longrightarrow> chain entities x (p # ps)"

code_pred (modes: i \<Rightarrow> i \<Rightarrow> o \<Rightarrow> bool, i \<Rightarrow> i \<Rightarrow> i \<Rightarrow> bool) chain .

code_pred (modes: i \<Rightarrow> o \<Rightarrow> i \<Rightarrow> bool, i \<Rightarrow> i \<Rightarrow> i \<Rightarrow> bool) ancestor_of .

subsection \<open>Notions the properties are stated with\<close>

text \<open>
  An ancestor passes when the store does not know it or when every rule of its list
  lets the inner loop run to its end.
\<close>

definition passes :: "store \<Rightarrow> string \<Rightarrow> pyval \<Rightarrow> string \<Rightarrow> bool" where
  "passes entities path new_value a \<longleftrightarrow>
     (case entities a of
        None \<Rightarrow> True
      | Some e \<Rightarrow> check_rules path new_value e (enforced_rules e) = Inr None)"

text \<open>
  No check of a rule of a strict ancestor raises \<^verbatim>\<open>TypeError\<close> on the proposed
  value.
\<close>

definition no_type_error :: "store \<Rightarrow> string \<Rightarrow> string \<Rightarrow> pyval \<Rightarrow> bool" where
  "no_type_error entities entity_id path new_value \<longleftrightarrow>
     (\<forall>a e r. ancestor_of entities a entity_id \<longrightarrow> entities a = Some e \<longrightarrow>
        r \<in> set (enforced_rules e) \<longrightarrow> check_rule path new_value e r \<noteq> Inl TypeError)"

text \<open>
  When a proposed value violates a rule, in the words of the specification: a
  \<^verbatim>\<open>locked\<close> rule by a value that differs from the rule's, a \<^verbatim>\<open>min\<close> rule by a
  number below the rule's, a \<^verbatim>\<open>max\<close> rule by a number above it, a \<^verbatim>\<open>subset\<close> rule
  by a list with an element outside the rule's list; no other kind is ever violated.
  Equality, order and membership are Python's.
\<close>

definition violates :: "string \<Rightarrow> pyval \<Rightarrow> EnforcedRule \<Rightarrow> bool" where
  "violates path new_value rule \<longleftrightarrow>
     rule_path rule = path \<and>
     (if rule_enforcement rule = ''locked'' then \<not> py_eq new_value (rule_value rule)
      else if rule_enforcement rule = ''min'' then
        (case (num_of new_value, num_of (rule_value rule)) of
           (Some x, Some y) \<Rightarrow> x < y | _ \<Rightarrow> False)
      else if rule_enforcement rule = ''max'' then
        (case (num_of new_value, num_of (rule_value rule)) of
           (Some x, Some y) \<Rightarrow> x > y | _ \<Rightarrow> False)
      else if rule_enforcement rule = ''subset'' then
        (case (new_value, rule_value rule) of
           (VList new_items, VList parent_items) \<Rightarrow>
             list_ex (\<lambda>v. \<not> py_in v parent_items) new_items
         | _ \<Rightarrow> False)
      else False)"

text \<open>
  A proposed value of the wrong type for a rule: not a number against \<^verbatim>\<open>min\<close> or
  \<^verbatim>\<open>max\<close>; against \<^verbatim>\<open>subset\<close>, not a list, or the rule's own value is not a list.
\<close>

definition mismatched :: "pyval \<Rightarrow> EnforcedRule \<Rightarrow> bool" where
  "mismatched new_value rule \<longleftrightarrow>
     (rule_enforcement rule = ''min'' \<or> rule_enforcement rule = ''max'')
       \<and> \<not> is_number new_value
     \<or> rule_enforcement rule = ''subset''
       \<and> (\<not> is_list new_value \<or> \<not> is_list (rule_value rule))"

text \<open>
  A rule that is type-compatible with a proposed value: at the changed path, a
  \<^verbatim>\<open>min\<close> or \<^verbatim>\<open>max\<close> rule that meets a number has a number as its own value, and
  a \<^verbatim>\<open>subset\<close> rule that meets a list has hashable elements in its own list and
  meets strings only.
\<close>

definition comparable :: "string \<Rightarrow> pyval \<Rightarrow> EnforcedRule \<Rightarrow> bool" where
  "comparable path new_value rule \<longleftrightarrow>
     (rule_path rule = path \<longrightarrow>
        ((rule_enforcement rule = ''min'' \<or> rule_enforcement rule = ''max'')
           \<and> is_number new_value \<longrightarrow> is_number (rule_value rule))
        \<and> (rule_enforcement rule = ''subset'' \<longrightarrow>
             (case (new_value, rule_value rule) of
                (VList new_items, VList parent_items) \<Rightarrow>
                  list_all is_str new_items \<and> list_all hashable parent_items
              | _ \<Rightarrow> True)))"

text \<open>The store with every rule that fails \<open>keep\<close> taken out of every entity.\<close>

definition keep_rules :: "(EnforcedRule \<Rightarrow> bool) \<Rightarrow> store \<Rightarrow> store" where
  "keep_rules keep entities x =
     map_option (\<lambda>e. e\<lparr>enforced_rules := filter keep (enforced_rules e)\<rparr>) (entities x)"

text \<open>
  The effective policy of a path along an ancestry list that starts at the entity: the
  first member of the list with an enforced rule at the path decides, by the last such
  rule of its list.
\<close>

definition rules_at :: "EntityProfile \<Rightarrow> string \<Rightarrow> EnforcedRule list" where
  "rules_at e path = filter (\<lambda>r. rule_path r = path) (enforced_rules e)"

fun nearest_rule :: "store \<Rightarrow> string \<Rightarrow> string list \<Rightarrow> EffectivePolicy option" where
  "nearest_rule entities path [] = None"
| "nearest_rule entities path (a # ancestry) =
     (case entities a of
        None \<Rightarrow> nearest_rule entities path ancestry
      | Some e \<Rightarrow>
          if rules_at e path = [] then nearest_rule entities path ancestry
          else
            (let r = last (rules_at e path) in
             Some \<lparr> eff_value = rule_value r, eff_source = display_name e,
                    eff_enforcement = rule_enforcement r,
                    eff_locked = (rule_enforcement r = ''locked'') \<rparr>))"

subsection \<open>Example stores\<close>

text \<open>The positional constructor \<^verbatim>\<open>EnforcedRule(id, path, value, enforcement, reason)\<close>.\<close>

definition Rule :: "string \<Rightarrow> string \<Rightarrow> pyval \<Rightarrow> string \<Rightarrow> string \<Rightarrow> EnforcedRule" where
  "Rule i p v enf why =
     \<lparr> rule_id = i, rule_path = p, rule_value = v, rule_enforcement = enf, rule_reason = why \<rparr>"

text \<open>
  An entity for the small stores below: an id, a display name, a parent, a depth and
  enforced rules; the fields the functions never read are left empty.
\<close>

definition Entity ::
  "string \<Rightarrow> string \<Rightarrow> string option \<Rightarrow> int \<Rightarrow> EnforcedRule list \<Rightarrow> EntityProfile" where
  "Entity i name par dep rules =
     \<lparr> profile_id = i, profile_type = ''entity'', display_name = name,
       entity_type = ''team'', description = None, parent = par, children = [],
       inherit_policies = True, depth = dep, enforced_rules = rules, policies = [],
       direct_members = [], admins = [] \<rparr>"

text \<open>Malformed data: two entities that name each other as parent.\<close>

definition cyclic_entities :: store where
  "cyclic_entities =
     [''a'' \<mapsto> Entity ''a'' ''A'' (Some ''b'') 0 [],
      ''b'' \<mapsto> Entity ''b'' ''B'' (Some ''a'') 1 []]"

text \<open>
  An organisation, a department under it and a team under the department. The
  organisation and the department both lock \<^verbatim>\<open>gdpr\<close>, with different reasons.
\<close>

definition org_profile :: EntityProfile where
  "org_profile = Entity ''org'' ''Org'' None 0
     [Rule ''r1'' ''gdpr'' (VBool True) ''locked'' ''legal'',
      Rule ''r2'' ''bits'' (VInt 256) ''min'' ''baseline'']"

definition dept_profile :: EntityProfile where
  "dept_profile = Entity ''dept'' ''Dept'' (Some ''org'') 1
     [Rule ''r3'' ''gdpr'' (VBool True) ''locked'' ''department rule'']"

definition team_profile :: EntityProfile where
  "team_profile = Entity ''team'' ''Team'' (Some ''dept'') 2 []"

definition org_entities :: store where
  "org_entities =
     [''org'' \<mapsto> org_profile, ''dept'' \<mapsto> dept_profile, ''team'' \<mapsto> team_profile]"

text \<open>
  The same shape with rule values that were written as strings: a \<^verbatim>\<open>min\<close> rule
  \<^verbatim>\<open>"128"\<close> in the department, a \<^verbatim>\<open>max\<close> rule \<^verbatim>\<open>"36"\<close> in the organisation.
\<close>

definition quoted_org :: EntityProfile where
  "quoted_org = Entity ''org'' ''Org'' None 0
     [Rule ''q1'' ''bits'' (VInt 256) ''locked'' ''baseline'',
      Rule ''q2'' ''retention'' (VStr ''36'') ''max'' ''minimization'']"

definition quoted_dept :: EntityProfile where
  "quoted_dept = Entity ''dept'' ''Dept'' (Some ''org'') 1
     [Rule ''q3'' ''bits'' (VStr ''128'') ''min'' ''department baseline'']"

definition quoted_entities :: store where
  "quoted_entities =
     [''org'' \<mapsto> quoted_org, ''dept'' \<mapsto> quoted_dept, ''team'' \<mapsto> team_profile]"

text \<open>
  A parent with one rule per path and a child: \<^verbatim>\<open>subset\<close> rules over numbers and
  over strings, an \<^verbatim>\<open>additive\<close> rule, a \<^verbatim>\<open>min\<close> rule, and rules at a path and at
  one of its dot-descendants.
\<close>

definition parent_profile :: EntityProfile where
  "parent_profile = Entity ''org'' ''Org'' None 0
     [Rule ''p1'' ''ports'' (VList [VInt 80, VInt 443]) ''subset'' ''open ports'',
      Rule ''p2'' ''models'' (VList [VStr ''claude-3'', VStr ''gpt-4'']) ''subset'' ''vetted'',
      Rule ''p3'' ''blocked'' (VList [VStr ''legacy'']) ''additive'' ''blocklist'',
      Rule ''p4'' ''bits'' (VInt 256) ''min'' ''baseline'',
      Rule ''p5'' ''policies.data'' (VStr ''EU'') ''locked'' ''residency'',
      Rule ''p6'' ''policies.data.retention.maxMonths'' (VInt 36) ''max'' ''minimization'']"

definition child_profile :: EntityProfile where
  "child_profile = Entity ''team'' ''Team'' (Some ''org'') 1 []"

definition pair_entities :: store where
  "pair_entities = [''org'' \<mapsto> parent_profile, ''team'' \<mapsto> child_profile]"





text \<open>The three entities that \<^verbatim>\<open>main()\<close> creates, stored under their ids.\<close>

definition acme_corp :: EntityProfile where
  "acme_corp =
     \<lparr> profile_id = ''did:a2p:entity:local:local:local:acme-corp'',
       profile_type = ''entity'',
       display_name = ''ACME Corporation'',
       entity_type = ''organization'',
       description = Some ''Global technology company'',
       parent = None,
       children = [''did:a2p:entity:local:local:acme-engineering'',
                   ''did:a2p:entity:local:local:acme-sales''],
       inherit_policies = False,
       depth = 0,
       enforced_rules =
         [Rule ''gdpr-compliance'' ''policies.compliance.gdpr'' (VBool True) ''locked''
            ''Legal requirement for EU operations'',
          Rule ''data-residency'' ''policies.data.residency'' (VList [VStr ''EU'']) ''locked''
            ''Corporate data sovereignty policy'',
          Rule ''max-retention'' ''policies.data.retention.maxMonths'' (VInt 36) ''max''
            ''GDPR data minimization'',
          Rule ''min-encryption'' ''policies.security.encryption.minBits'' (VInt 256) ''min''
            ''Security baseline'',
          Rule ''allowed-ai-models'' ''policies.ai.allowedModels''
            (VList [VStr ''gpt-4'', VStr ''claude-3'', VStr ''gemini-pro'']) ''subset''
            ''Only security-vetted models'',
          Rule ''ai-blocklist'' ''policies.ai.blockedModels'' (VList [VStr ''legacy-gpt-*''])
            ''additive'' ''Security team blocklist''],
       policies =
         [(''compliance'', VDict [(''gdpr'', VBool True), (''ccpa'', VBool True)]),
          (''data'', VDict [(''residency'', VList [VStr ''EU'']),
                            (''retention'', VDict [(''maxMonths'', VInt 36)])]),
          (''security'', VDict [(''encryption'', VDict [(''minBits'', VInt 256)]),
                                (''mfaRequired'', VBool True)]),
          (''ai'', VDict [(''allowedModels'',
                            VList [VStr ''gpt-4'', VStr ''claude-3'', VStr ''gemini-pro'']),
                          (''blockedModels'', VList [VStr ''legacy-gpt-*''])])],
       direct_members = [],
       admins = [''did:a2p:user:local:local:ceo''] \<rparr>"

definition engineering :: EntityProfile where
  "engineering =
     \<lparr> profile_id = ''did:a2p:entity:local:local:acme-engineering'',
       profile_type = ''entity'',
       display_name = ''Engineering'',
       entity_type = ''department'',
       description = Some ''Product and platform engineering'',
       parent = Some ''did:a2p:entity:local:local:acme-corp'',
       children = [''did:a2p:entity:local:local:acme-ml-team'',
                   ''did:a2p:entity:local:local:acme-platform-team''],
       inherit_policies = True,
       depth = 1,
       enforced_rules =
         [Rule ''code-review'' ''policies.development.codeReview'' (VBool True) ''locked''
            ''Engineering quality standard'',
          Rule ''ci-required'' ''policies.development.ciRequired'' (VBool True) ''locked''
            ''Continuous integration mandatory''],
       policies =
         [(''development'', VDict [(''codeReview'', VBool True), (''ciRequired'', VBool True)]),
          (''tools'', VDict [(''ide'', VStr ''vscode''), (''vcs'', VStr ''git'')])],
       direct_members = [],
       admins = [''did:a2p:user:local:local:vp-engineering''] \<rparr>"

definition ml_team :: EntityProfile where
  "ml_team =
     \<lparr> profile_id = ''did:a2p:entity:local:local:acme-ml-team'',
       profile_type = ''entity'',
       display_name = ''ML Team'',
       entity_type = ''team'',
       description = Some ''Machine learning and AI research'',
       parent = Some ''did:a2p:entity:local:local:acme-engineering'',
       children = [],
       inherit_policies = True,
       depth = 2,
       enforced_rules =
         [Rule ''experiment-tracking'' ''policies.ml.experimentTracking'' (VBool True) ''locked''
            ''ML reproducibility requirement''],
       policies =
         [(''ai'', VDict [(''allowedModels'', VList [VStr ''claude-3''])]),
          (''ml'', VDict [(''experimentTracking'', VBool True), (''gpuAccess'', VBool True)]),
          (''tools'', VDict [(''ide'', VStr ''vscode''), (''notebooks'', VStr ''jupyter'')])],
       direct_members = [''did:a2p:user:local:local:alice'', ''did:a2p:user:local:local:bob''],
       admins = [''did:a2p:user:local:local:alice''] \<rparr>"

definition main_entities :: store where
  "main_entities =
     [profile_id acme_corp \<mapsto> acme_corp,
      profile_id engineering \<mapsto> engineering,
      profile_id ml_team \<mapsto> ml_team]"

section \<open>Properties\<close>

subsection \<open>The ancestry walk\<close>

lemma ancestry_loop_stop:
  "parent_id entities x = None \<Longrightarrow> ancestry_loop entities (entities x) acc = Some acc"
  by (subst ancestry_loop.simps) (auto simp: parent_id_def split: option.splits if_splits)

lemma ancestry_loop_step:
  "parent_id entities x = Some p \<Longrightarrow>
   ancestry_loop entities (entities x) acc = ancestry_loop entities (entities p) (acc @ [p])"
  by (subst ancestry_loop.simps) (auto simp: parent_id_def split: option.splits if_splits)

lemma ancestry_loop_chain:
  "chain entities x xs \<Longrightarrow> ancestry_loop entities (entities x) acc = Some (acc @ xs)"
proof (induction arbitrary: acc rule: chain.induct)
  case (root x)
  then show ?case by (simp add: ancestry_loop_stop)
next
  case (link x p ps)
  then show ?case by (simp add: ancestry_loop_step)
qed

lemma get_ancestry_chain:
  "chain entities d xs \<Longrightarrow> get_ancestry entities d = Some (d # xs)"
  by (simp add: get_ancestry_def ancestry_loop_chain)

lemmas ancestry_loop_induct =
  ancestry_loop.raw_induct[rotated 1, consumes 1, case_names step]

lemma ancestry_loop_returns:
  assumes "ancestry_loop entities cur acc = Some ys" and "cur = entities x"
  shows "\<exists>xs. chain entities x xs \<and> ys = acc @ xs"
  using assms
proof (induction entities cur acc ys arbitrary: x rule: ancestry_loop_induct)
  case (step loop entities current result ys)
  note IH = step(1) and body = step(2) and cur = step(3)
  show ?case
  proof (cases "parent_id entities x")
    case None
    with body have "ys = result"
      unfolding cur by (auto simp: parent_id_def split: option.splits if_splits)
    with None show ?thesis by (auto intro: chain.root)
  next
    case (Some p)
    with body have "loop entities (entities p) (result @ [p]) = Some ys"
      unfolding cur by (auto simp: parent_id_def split: option.splits if_splits)
    from IH[OF this refl] obtain ps where "chain entities p ps" "ys = (result @ [p]) @ ps"
      by blast
    with Some show ?thesis by (auto intro: chain.link)
  qed
qed

lemma get_ancestry_returns:
  "get_ancestry entities d = Some ys \<Longrightarrow> \<exists>xs. chain entities d xs \<and> ys = d # xs"
  using ancestry_loop_returns[of entities "entities d" "[d]" ys d]
  by (simp add: get_ancestry_def)

lemma chain_deterministic:
  "chain entities x xs \<Longrightarrow> chain entities x ys \<Longrightarrow> xs = ys"
proof (induction arbitrary: ys rule: chain.induct)
  case (root x)
  then show ?case by (auto elim: chain.cases)
next
  case (link x p ps)
  from link(4) link(1) obtain qs where "ys = p # qs" "chain entities p qs"
    by (auto elim: chain.cases)
  with link(3) show ?case by simp
qed

lemma chain_suffix:
  "chain entities x xs \<Longrightarrow> y \<in> set xs \<Longrightarrow> \<exists>ys. chain entities y ys \<and> length ys < length xs"
proof (induction rule: chain.induct)
  case (root x)
  then show ?case by simp
next
  case (link x p ps)
  show ?case
  proof (cases "y = p")
    case True
    with link(2) show ?thesis by auto
  next
    case False
    with link(4) have "y \<in> set ps" by simp
    from link(3)[OF this] show ?thesis by auto
  qed
qed

lemma chain_not_self: "chain entities x xs \<Longrightarrow> x \<notin> set xs"
proof
  assume c: "chain entities x xs" and "x \<in> set xs"
  from chain_suffix[OF this] obtain ys where "chain entities x ys" "length ys < length xs"
    by blast
  with chain_deterministic[OF c this(1)] show False by simp
qed

lemma chain_ancestors:
  "chain entities d xs \<Longrightarrow> a \<in> set xs \<longleftrightarrow> ancestor_of entities a d"
proof (induction rule: chain.induct)
  case (root x)
  then show ?case by (auto elim: ancestor_of.cases)
next
  case (link x p ps)
  show ?case
  proof
    assume "a \<in> set (p # ps)"
    with link show "ancestor_of entities a x"
      by (auto intro: ancestor_of.intros)
  next
    assume "ancestor_of entities a x"
    then show "a \<in> set (p # ps)"
      using link by (cases rule: ancestor_of.cases) auto
  qed
qed

lemma finite_parent_rel: "finite (dom entities) \<Longrightarrow> finite (parent_rel entities)"
proof -
  assume fin: "finite (dom entities)"
  have "parent_rel entities \<subseteq> (\<lambda>c. (the (parent_id entities c), c)) ` dom entities"
  proof
    fix pc assume "pc \<in> parent_rel entities"
    then obtain p c where pc: "pc = (p, c)" and par: "parent_id entities c = Some p"
      by (auto simp: parent_rel_def)
    from par have "c \<in> dom entities"
      by (auto simp: parent_id_def split: option.splits)
    with pc par show "pc \<in> (\<lambda>c. (the (parent_id entities c), c)) ` dom entities"
      by (intro image_eqI[where x = c]) simp_all
  qed
  with fin show ?thesis by (meson finite_imageI finite_subset)
qed

lemma tree_store_wf: "tree_store entities \<Longrightarrow> wf (parent_rel entities)"
  by (simp add: tree_store_def finite_parent_rel finite_acyclic_wf)

lemma wf_chain_exists:
  assumes "wf (parent_rel entities)"
  shows "\<exists>xs. chain entities x xs"
  using assms
proof (induction x rule: wf_induct_rule)
  case (less x)
  show ?case
  proof (cases "parent_id entities x")
    case None
    then show ?thesis by (auto intro: chain.root)
  next
    case (Some p)
    then have "(p, x) \<in> parent_rel entities" by (simp add: parent_rel_def)
    from less(1)[OF this] Some show ?thesis by (auto intro: chain.link)
  qed
qed

lemma tree_store_chain: "tree_store entities \<Longrightarrow> \<exists>xs. chain entities d xs"
  by (simp add: tree_store_wf wf_chain_exists)

text \<open>
  A store in which every entity lies deeper than its parent (the \<^verbatim>\<open>depth\<close> field) is
  a tree.
\<close>

lemma tree_store_by_depth:
  assumes fin: "finite (dom entities)"
    and dep: "\<And>c e p pe. entities c = Some e \<Longrightarrow> parent e = Some p \<Longrightarrow>
               entities p = Some pe \<Longrightarrow> 0 \<le> depth pe \<and> depth pe < depth e"
  shows "tree_store entities"
proof -
  let ?m = "\<lambda>x. case entities x of None \<Rightarrow> 0 | Some e \<Rightarrow> Suc (nat (depth e))"
  have "parent_rel entities \<subseteq> measure ?m"
  proof
    fix pc assume "pc \<in> parent_rel entities"
    then obtain p c where pc: "pc = (p, c)" and par: "parent_id entities c = Some p"
      by (auto simp: parent_rel_def)
    from par obtain e where e: "entities c = Some e" "parent e = Some p"
      by (auto simp: parent_id_def split: option.splits if_splits)
    show "pc \<in> measure ?m"
    proof (cases "entities p")
      case None
      with e pc show ?thesis by simp
    next
      case (Some pe)
      from dep[OF e Some] have "nat (depth pe) < nat (depth e)" by linarith
      with e Some pc show ?thesis by simp
    qed
  qed
  then have "wf (parent_rel entities)"
    by (rule wf_subset[OF wf_measure])
  then show ?thesis
    using fin by (simp add: tree_store_def wf_acyclic)
qed


subsection \<open>The two loops of validate_policy_change\<close>

lemma check_rule_display_name:
  "display_name e' = display_name e \<Longrightarrow> check_rule path v e' r = check_rule path v e r"
  by (simp only: check_rule_def)

lemma check_rules_display_name:
  "display_name e' = display_name e \<Longrightarrow> check_rules path v e' rs = check_rules path v e rs"
  by (induction rs)
     (auto simp: check_rule_display_name[of e' e] split: sum.splits option.splits)

lemma check_rules_pass_iff:
  "check_rules path v e rs = Inr None \<longleftrightarrow> (\<forall>r\<in>set rs. check_rule path v e r = Inr None)"
  by (induction rs) (auto split: sum.splits option.splits)

lemma check_rules_error:
  "check_rules path v e rs = Inl err \<Longrightarrow> \<exists>r\<in>set rs. check_rule path v e r = Inl err"
  by (induction rs) (auto split: sum.splits option.splits)


lemma check_rules_filter:
  "\<forall>r\<in>set rs. \<not> keep r \<longrightarrow> check_rule path v e r = Inr None \<Longrightarrow>
   check_rules path v e (filter keep rs) = check_rules path v e rs"
  by (induction rs) (auto split: sum.splits option.splits)

text \<open>An entity with an empty rule list is skipped, as an empty inner loop would be.\<close>

lemma check_ancestors_Cons:
  "a \<noteq> d \<Longrightarrow>
   check_ancestors entities d path v (a # xs) =
     (case entities a of
        None \<Rightarrow> check_ancestors entities d path v xs
      | Some e \<Rightarrow>
          (case check_rules path v e (enforced_rules e) of
             Inl err \<Rightarrow> Inl err
           | Inr (Some why) \<Rightarrow> Inr (Denied why)
           | Inr None \<Rightarrow> check_ancestors entities d path v xs))"
  by (auto split: option.splits sum.splits)

lemma passes_iff:
  "passes entities path v a \<longleftrightarrow>
     (\<forall>e r. entities a = Some e \<longrightarrow> r \<in> set (enforced_rules e) \<longrightarrow>
        check_rule path v e r = Inr None)"
  by (auto simp: passes_def check_rules_pass_iff split: option.splits)

lemma check_ancestors_allowed_iff:
  "d \<notin> set xs \<Longrightarrow>
   check_ancestors entities d path v xs = Inr Allowed \<longleftrightarrow>
     (\<forall>a\<in>set xs. passes entities path v a)"
proof (induction xs)
  case Nil
  then show ?case by simp
next
  case (Cons a xs)
  then have "a \<noteq> d" "d \<notin> set xs" by auto
  with Cons.IH show ?case
    by (simp only: check_ancestors_Cons) (auto simp: passes_def split: option.splits sum.splits)
qed

lemma check_ancestors_error:
  "check_ancestors entities d path v xs = Inl err \<Longrightarrow>
   \<exists>a\<in>set xs. \<exists>e. entities a = Some e \<and> check_rules path v e (enforced_rules e) = Inl err"
proof (induction xs)
  case Nil
  then show ?case by simp
next
  case (Cons a xs)
  then show ?case
    by (cases "a = d") (auto split: option.splits sum.splits if_splits)
qed




lemma validate_on_chain:
  "chain entities d xs \<Longrightarrow>
   validate_policy_change entities d path v = Some (check_ancestors entities d path v xs)"
  by (simp add: validate_policy_change_def get_ancestry_chain)

text \<open>
  On a tree the call returns what the outer loop computes over the strict ancestors,
  nearest first; the entity itself is not among them.
\<close>

lemma validate_on_tree:
  assumes "tree_store entities"
  shows "\<exists>xs. chain entities d xs
           \<and> validate_policy_change entities d path v
               = Some (check_ancestors entities d path v xs)
           \<and> d \<notin> set xs \<and> (\<forall>a. a \<in> set xs \<longleftrightarrow> ancestor_of entities a d)"
proof -
  from tree_store_chain[OF assms] obtain xs where c: "chain entities d xs" by blast
  with validate_on_chain[OF c] chain_not_self[OF c] chain_ancestors[OF c]
  show ?thesis by blast
qed

subsection \<open>Single rules\<close>

lemma check_rule_other_path: "rule_path r \<noteq> path \<Longrightarrow> check_rule path v e r = Inr None"
  by (simp add: check_rule_def)

lemma check_rule_mismatched: "mismatched v r \<Longrightarrow> check_rule path v e r = Inr None"
  by (cases v; cases "rule_value r") (auto simp: check_rule_def mismatched_def)

lemma check_rule_unenforced:
  "rule_enforcement r \<in> {''additive'', ''narrowable'', ''overridable''} \<Longrightarrow>
   check_rule path v e r = Inr None"
  by (auto simp: check_rule_def)

lemma num_of_is_number: "is_number v \<longleftrightarrow> num_of v \<noteq> None"
  by (cases v) auto

text \<open>
  Where the check of a rule does not raise, it lets the loop go on exactly when the
  proposed value does not violate the rule.
\<close>

lemma check_rule_violates:
  "check_rule path v e r \<noteq> Inl TypeError \<Longrightarrow>
   check_rule path v e r = Inr None \<longleftrightarrow> \<not> violates path v r"
  unfolding check_rule_def violates_def py_lt_def py_gt_def
  by (cases v; cases "rule_value r")
     (auto simp: Let_def list_ex_iff filter_empty_conv num_of_is_number
           split: sum.splits option.splits bool.splits if_splits)

text \<open>
  A type-compatible rule never raises: its check either lets the loop go on or denies,
  according to whether the value violates it.
\<close>

lemma is_str_hashable: "list_all is_str xs \<Longrightarrow> list_all hashable xs"
proof (induction xs)
  case Nil
  then show ?case by simp
next
  case (Cons x xs)
  then show ?case by (cases x) auto
qed

lemma str_items_strings: "list_all is_str xs \<Longrightarrow> \<exists>ss. str_items xs = Inr ss"
proof (induction xs)
  case Nil
  then show ?case by simp
next
  case (Cons x xs)
  then show ?case by (cases x) auto
qed

lemma list_all_filter: "list_all P xs \<Longrightarrow> list_all P (filter Q xs)"
  by (induction xs) auto

lemma comparable_no_error:
  assumes "comparable path v r"
  shows "check_rule path v e r \<noteq> Inl TypeError"
proof (cases "rule_path r = path")
  case False
  then show ?thesis by (simp add: check_rule_def)
next
  case True
  show ?thesis
  proof (cases "rule_enforcement r = ''subset''")
    case False
    with True assms show ?thesis
      by (cases v; cases "rule_value r")
         (auto simp: comparable_def check_rule_def py_lt_def py_gt_def
               split: sum.splits bool.splits)
  next
    case sub: True
    show ?thesis
    proof (cases "\<exists>new_items parent_items. v = VList new_items \<and> rule_value r = VList parent_items")
      case False
      with True sub show ?thesis
        by (cases v; cases "rule_value r") (auto simp: check_rule_def)
    next
      case both: True
      then obtain new_items parent_items where
        v: "v = VList new_items" and p: "rule_value r = VList parent_items" by blast
      with assms True sub have s: "list_all is_str new_items" "list_all hashable parent_items"
        by (auto simp: comparable_def)
      from s(1) have "list_all is_str (filter (\<lambda>x. \<not> py_in x parent_items) new_items)"
        by (rule list_all_filter)
      from str_items_strings[OF this] obtain ss where
        "str_items (filter (\<lambda>x. \<not> py_in x parent_items) new_items) = Inr ss" by blast
      with True sub v p is_str_hashable[OF s(1)] s(2) show ?thesis
        by (simp add: check_rule_def py_join_def Let_def)
    qed
  qed
qed



lemma check_rule_passes:
  "comparable path v r \<Longrightarrow> \<not> violates path v r \<Longrightarrow> check_rule path v e r = Inr None"
  using check_rule_violates[of path v e r] comparable_no_error[of path v r e] by simp

lemma check_rule_denies:
  "comparable path v r \<Longrightarrow> violates path v r \<Longrightarrow> \<exists>why. check_rule path v e r = Inr (Some why)"
proof -
  assume c: "comparable path v r" and v: "violates path v r"
  from comparable_no_error[OF c, of e] check_rule_violates[of path v e r] v
  have "check_rule path v e r \<noteq> Inl TypeError" "check_rule path v e r \<noteq> Inr None" by auto
  then show ?thesis
    by (cases "check_rule path v e r") (auto, metis py_error.exhaust)
qed

lemma str_items_map: "str_items (map VStr names) = Inr names"
  by (induction names) auto

text \<open>
  A \<^verbatim>\<open>subset\<close> rule against a proposed list of strings: the list passes when every
  name is in the rule's list, and is denied with the names that are not, joined by a
  comma and a space.
\<close>

lemma check_rule_subset_strings:
  assumes "rule_path r = path" "rule_enforcement r = ''subset''"
    and "rule_value r = VList parent_items" "list_all hashable parent_items"
  shows "check_rule path (VList (map VStr names)) e r =
     (let bad = filter (\<lambda>s. \<not> py_in (VStr s) parent_items) names in
      if bad = [] then Inr None
      else Inr (Some [Lit (''\"'' @ path @ ''\" must be subset of ''),
                      JsonDumps (VList parent_items),
                      Lit (''. Invalid: '' @ join_strs '', '' bad)]))"
proof -
  have h: "list_all hashable (map VStr names)" by (induction names) auto
  have f: "filter (\<lambda>v. \<not> py_in v parent_items) (map VStr names)
           = map VStr (filter (\<lambda>s. \<not> py_in (VStr s) parent_items) names)"
    by (induction names) auto
  show ?thesis
    using assms h by (simp add: check_rule_def f py_join_def str_items_map Let_def)
qed

subsection \<open>Rules that never stop the loops can be taken out\<close>

lemma parent_id_keep_rules: "parent_id (keep_rules keep entities) = parent_id entities"
  by (auto simp: parent_id_def keep_rules_def fun_eq_iff split: option.splits)

lemma chain_keep_rules: "chain (keep_rules keep entities) d xs \<longleftrightarrow> chain entities d xs"
proof
  show "chain (keep_rules keep entities) d xs \<Longrightarrow> chain entities d xs"
    by (induction rule: chain.induct) (auto simp: parent_id_keep_rules intro: chain.intros)
  show "chain entities d xs \<Longrightarrow> chain (keep_rules keep entities) d xs"
    by (induction rule: chain.induct) (auto simp: parent_id_keep_rules intro: chain.intros)
qed

lemma get_ancestry_keep_rules:
  "get_ancestry (keep_rules keep entities) d = get_ancestry entities d"
proof (cases "get_ancestry entities d")
  case None
  show ?thesis
  proof (cases "get_ancestry (keep_rules keep entities) d")
    case None
    with \<open>get_ancestry entities d = None\<close> show ?thesis by simp
  next
    case (Some ys)
    then obtain xs where "chain (keep_rules keep entities) d xs"
      using get_ancestry_returns by blast
    then have "chain entities d xs" by (simp add: chain_keep_rules)
    with None show ?thesis by (simp add: get_ancestry_chain)
  qed
next
  case (Some ys)
  then obtain xs where c: "chain entities d xs" and ys: "ys = d # xs"
    using get_ancestry_returns by blast
  from c have "chain (keep_rules keep entities) d xs" by (simp add: chain_keep_rules)
  with Some ys show ?thesis by (simp add: get_ancestry_chain)
qed

lemma check_ancestors_keep_rules:
  assumes "\<And>e r. \<not> keep r \<Longrightarrow> check_rule path v e r = Inr None"
  shows "check_ancestors (keep_rules keep entities) d path v xs
         = check_ancestors entities d path v xs"
proof (induction xs)
  case Nil
  then show ?case by simp
next
  case (Cons a xs)
  show ?case
  proof (cases "entities a")
    case None
    with Cons show ?thesis by (simp add: keep_rules_def)
  next
    case (Some e)
    let ?e' = "e\<lparr>enforced_rules := filter keep (enforced_rules e)\<rparr>"
    have k: "keep_rules keep entities a = Some ?e'" using Some by (simp add: keep_rules_def)
    have r: "check_rules path v ?e' (filter keep (enforced_rules e))
             = check_rules path v e (enforced_rules e)"
      using assms by (simp add: check_rules_display_name[of ?e' e] check_rules_filter)
    show ?thesis
    proof (cases "a = d")
      case True
      with Cons show ?thesis by simp
    next
      case False
      with Cons k r Some show ?thesis
        by (simp add: check_ancestors_Cons del: check_ancestors.simps
              split: sum.splits option.splits)
    qed
  qed
qed

lemma validate_keep_rules:
  assumes "\<And>e r. \<not> keep r \<Longrightarrow> check_rule path v e r = Inr None"
  shows "validate_policy_change (keep_rules keep entities) d path v
         = validate_policy_change entities d path v"
  using check_ancestors_keep_rules[of keep path v entities d, OF assms]
  by (simp add: validate_policy_change_def get_ancestry_keep_rules split: option.splits)



subsection \<open>The loops of compute_effective_policies\<close>

lemma apply_rules_at:
  "apply_rules e rs m path =
     (if filter (\<lambda>r. rule_path r = path) rs = [] then m path
      else Some (effective_of e (last (filter (\<lambda>r. rule_path r = path) rs))))"
  by (induction rs arbitrary: m) auto

lemma apply_entities_append:
  "apply_entities entities (xs @ ys) m = apply_entities entities ys (apply_entities entities xs m)"
  by (induction xs arbitrary: m) (auto split: option.splits)

lemma apply_entities_rev:
  "apply_entities entities (rev ys) m path =
     (case nearest_rule entities path ys of None \<Rightarrow> m path | Some p \<Rightarrow> Some p)"
proof (induction ys)
  case Nil
  then show ?case by simp
next
  case (Cons y ys)
  then show ?case
    by (auto simp: apply_entities_append apply_rules_at rules_at_def effective_of_def Let_def
          split: option.splits)
qed

lemma nearest_rule_bound_iff:
  "nearest_rule entities path ys \<noteq> None \<longleftrightarrow>
     (\<exists>a e r. a \<in> set ys \<and> entities a = Some e \<and> r \<in> set (enforced_rules e)
        \<and> rule_path r = path)"
proof (induction ys)
  case Nil
  then show ?case by simp
next
  case (Cons y ys)
  show ?case
  proof (cases "entities y")
    case None
    with Cons show ?thesis by auto
  next
    case (Some e)
    show ?thesis
    proof (cases "rules_at e path = []")
      case True
      then have "\<forall>r\<in>set (enforced_rules e). rule_path r \<noteq> path"
        by (auto simp: rules_at_def filter_empty_conv)
      with True Some Cons show ?thesis by auto
    next
      case False
      then obtain r where "r \<in> set (enforced_rules e)" "rule_path r = path"
        by (auto simp: rules_at_def filter_empty_conv)
      with False Some show ?thesis by (auto simp: Let_def)
    qed
  qed
qed

lemma compute_on_chain:
  assumes "chain entities d xs"
  shows "\<exists>result. compute_effective_policies entities d = Some result
      \<and> (\<forall>path. result path = nearest_rule entities path (d # xs))"
proof -
  have "apply_entities entities (rev (d # xs)) Map.empty path
        = nearest_rule entities path (d # xs)" for path
    by (simp only: apply_entities_rev) (simp split: option.splits)
  with get_ancestry_chain[OF assms] show ?thesis
    by (simp only: compute_effective_policies_def option.case) blast
qed

subsection \<open>The example stores\<close>

lemma lookup_org:
  "org_entities ''org'' = Some org_profile"
  "org_entities ''dept'' = Some dept_profile"
  "org_entities ''team'' = Some team_profile"
  "org_entities ''ghost'' = None"
  by (simp_all add: org_entities_def)

lemma parent_org:
  "parent_id org_entities ''team'' = Some ''dept''"
  "parent_id org_entities ''dept'' = Some ''org''"
  "parent_id org_entities ''org'' = None"
  by (simp_all add: parent_id_def lookup_org org_profile_def dept_profile_def
        team_profile_def Entity_def)

lemma chain_org: "chain org_entities ''team'' [''dept'', ''org'']"
  by (intro chain.intros parent_org)


lemma ancestor_org: "ancestor_of org_entities a ''team'' \<longleftrightarrow> a = ''dept'' \<or> a = ''org''"
  using chain_ancestors[OF chain_org, of a] by auto

lemma tree_org_entities: "tree_store org_entities"
proof (rule tree_store_by_depth)
  show "finite (dom org_entities)" by (simp add: org_entities_def)
next
  fix c e p pe
  assume "org_entities c = Some e" "parent e = Some p" "org_entities p = Some pe"
  then show "0 \<le> depth pe \<and> depth pe < depth e"
    by (auto simp: org_entities_def org_profile_def dept_profile_def team_profile_def
          Entity_def split: if_splits)
qed

lemma validate_org_gdpr:
  "validate_policy_change org_entities ''team'' ''gdpr'' (VBool False)
   = Some (Inr (Denied [Lit ''\"gdpr\" is locked by Dept: department rule'']))"
  by (simp add: validate_on_chain[OF chain_org] lookup_org org_profile_def dept_profile_def
        Entity_def Rule_def check_rule_def)

lemma validate_org_bits:
  "validate_policy_change org_entities ''team'' ''bits'' (VInt 128)
   = Some (Inr (Denied [Lit ''\"bits\" minimum is '', Str (VInt 256), Lit '' (set by Org)'']))"
  by (simp add: validate_on_chain[OF chain_org] lookup_org org_profile_def dept_profile_def
        Entity_def Rule_def check_rule_def py_lt_def)

lemma lookup_quoted:
  "quoted_entities ''org'' = Some quoted_org"
  "quoted_entities ''dept'' = Some quoted_dept"
  "quoted_entities ''team'' = Some team_profile"
  by (simp_all add: quoted_entities_def)

lemma parent_quoted:
  "parent_id quoted_entities ''team'' = Some ''dept''"
  "parent_id quoted_entities ''dept'' = Some ''org''"
  "parent_id quoted_entities ''org'' = None"
  by (simp_all add: parent_id_def lookup_quoted quoted_org_def quoted_dept_def
        team_profile_def Entity_def)

lemma chain_quoted: "chain quoted_entities ''team'' [''dept'', ''org'']"
  by (intro chain.intros parent_quoted)




lemma lookup_pair:
  "pair_entities ''org'' = Some parent_profile"
  "pair_entities ''team'' = Some child_profile"
  "pair_entities ''sales'' = None"
  by (simp_all add: pair_entities_def)

lemma parent_pair:
  "parent_id pair_entities ''team'' = Some ''org''"
  "parent_id pair_entities ''org'' = None"
  by (simp_all add: parent_id_def lookup_pair parent_profile_def child_profile_def Entity_def)

lemma chain_pair: "chain pair_entities ''team'' [''org'']"
  by (intro chain.intros parent_pair)

lemma ancestor_pair: "ancestor_of pair_entities a ''team'' \<longleftrightarrow> a = ''org''"
  using chain_ancestors[OF chain_pair, of a] by auto

lemma tree_pair_entities: "tree_store pair_entities"
proof (rule tree_store_by_depth)
  show "finite (dom pair_entities)" by (simp add: pair_entities_def)
next
  fix c e p pe
  assume "pair_entities c = Some e" "parent e = Some p" "pair_entities p = Some pe"
  then show "0 \<le> depth pe \<and> depth pe < depth e"
    by (auto simp: pair_entities_def parent_profile_def child_profile_def Entity_def
          split: if_splits)
qed

lemma validate_pair:
  "validate_policy_change pair_entities ''team'' path v
   = Some (case check_rules path v parent_profile (enforced_rules parent_profile) of
             Inl err \<Rightarrow> Inl err
           | Inr (Some why) \<Rightarrow> Inr (Denied why)
           | Inr None \<Rightarrow> Inr Allowed)"
  by (simp add: validate_on_chain[OF chain_pair] lookup_pair check_ancestors_Cons
        split: sum.splits option.splits)

text \<open>
  The example of the specification: against the parent's list of \<^verbatim>\<open>claude-3\<close> and
  \<^verbatim>\<open>gpt-4\<close> the child may narrow to \<^verbatim>\<open>claude-3\<close>, and \<^verbatim>\<open>llama-2\<close> is refused
  by name.
\<close>

lemma subset_narrowing_examples:
  "validate_policy_change pair_entities ''team'' ''models'' (VList [VStr ''claude-3''])
   = Some (Inr Allowed)"
  "validate_policy_change pair_entities ''team'' ''models''
     (VList [VStr ''claude-3'', VStr ''llama-2''])
   = Some (Inr (Denied [Lit ''\"models\" must be subset of '',
                        JsonDumps (VList [VStr ''claude-3'', VStr ''gpt-4'']),
                        Lit ''. Invalid: llama-2'']))"
  by (simp_all add: validate_pair parent_profile_def Entity_def Rule_def check_rule_def
        py_in_def py_join_def)

subsection \<open>What main() computes\<close>

lemma lookup_main:
  "main_entities ''did:a2p:entity:local:local:acme-ml-team'' = Some ml_team"
  "main_entities ''did:a2p:entity:local:local:acme-engineering'' = Some engineering"
  "main_entities ''did:a2p:entity:local:local:acme-corp'' = None"
  "main_entities ''did:a2p:entity:local:local:local:acme-corp'' = Some acme_corp"
  by (simp_all add: main_entities_def acme_corp_def engineering_def ml_team_def)

lemma parent_main:
  "parent_id main_entities ''did:a2p:entity:local:local:acme-ml-team''
   = Some ''did:a2p:entity:local:local:acme-engineering''"
  "parent_id main_entities ''did:a2p:entity:local:local:acme-engineering''
   = Some ''did:a2p:entity:local:local:acme-corp''"
  "parent_id main_entities ''did:a2p:entity:local:local:acme-corp'' = None"
  by (simp_all add: parent_id_def lookup_main) (simp_all add: engineering_def ml_team_def)

lemma chain_main:
  "chain main_entities ''did:a2p:entity:local:local:acme-ml-team''
     [''did:a2p:entity:local:local:acme-engineering'', ''did:a2p:entity:local:local:acme-corp'']"
  by (intro chain.intros parent_main)

text \<open>
  \<^verbatim>\<open>main()\<close> stores ACME Corporation under an id with three \<^verbatim>\<open>local\<close> segments,
  while Engineering names a parent with two. The walk from the ML team therefore ends at
  an id the store does not know, the rules of ACME Corporation are never consulted, and
  each of the five attempts of step 5 is allowed, the three that the comments expect to
  fail included.
\<close>

lemma main_attempts:
  "validate_policy_change main_entities (profile_id ml_team)
     ''policies.compliance.gdpr'' (VBool False) = Some (Inr Allowed)"
  "validate_policy_change main_entities (profile_id ml_team)
     ''policies.security.encryption.minBits'' (VInt 128) = Some (Inr Allowed)"
  "validate_policy_change main_entities (profile_id ml_team)
     ''policies.security.encryption.minBits'' (VInt 512) = Some (Inr Allowed)"
  "validate_policy_change main_entities (profile_id ml_team)
     ''policies.ai.allowedModels'' (VList [VStr ''claude-3'', VStr ''llama-2''])
     = Some (Inr Allowed)"
  "validate_policy_change main_entities (profile_id ml_team)
     ''policies.ai.allowedModels'' (VList [VStr ''claude-3'']) = Some (Inr Allowed)"
proof -
  have id: "profile_id ml_team = ''did:a2p:entity:local:local:acme-ml-team''"
    by (simp add: ml_team_def)
  have eng: "check_rules p v engineering (enforced_rules engineering) = Inr None"
    if "p \<noteq> ''policies.development.codeReview''" "p \<noteq> ''policies.development.ciRequired''"
    for p v
    using that by (simp add: engineering_def Rule_def check_rule_def)
  show
    "validate_policy_change main_entities (profile_id ml_team)
       ''policies.compliance.gdpr'' (VBool False) = Some (Inr Allowed)"
    "validate_policy_change main_entities (profile_id ml_team)
       ''policies.security.encryption.minBits'' (VInt 128) = Some (Inr Allowed)"
    "validate_policy_change main_entities (profile_id ml_team)
       ''policies.security.encryption.minBits'' (VInt 512) = Some (Inr Allowed)"
    "validate_policy_change main_entities (profile_id ml_team)
       ''policies.ai.allowedModels'' (VList [VStr ''claude-3'', VStr ''llama-2''])
       = Some (Inr Allowed)"
    "validate_policy_change main_entities (profile_id ml_team)
       ''policies.ai.allowedModels'' (VList [VStr ''claude-3'']) = Some (Inr Allowed)"
    unfolding id
    by (simp_all add: validate_on_chain[OF chain_main] lookup_main eng)
qed

text \<open>
  For the same reason the effective policies that step 4 computes for the ML team hold
  the rules of Engineering and of the team itself and none of ACME Corporation.
\<close>

lemma rules_at_ml_team:
  "rules_at ml_team p =
     (if p = ''policies.ml.experimentTracking''
      then [Rule ''experiment-tracking'' ''policies.ml.experimentTracking'' (VBool True)
              ''locked'' ''ML reproducibility requirement'']
      else [])"
  by (auto simp: rules_at_def ml_team_def Rule_def)

lemma rules_at_engineering:
  "rules_at engineering p =
     (if p = ''policies.development.codeReview''
      then [Rule ''code-review'' ''policies.development.codeReview'' (VBool True) ''locked''
              ''Engineering quality standard'']
      else if p = ''policies.development.ciRequired''
      then [Rule ''ci-required'' ''policies.development.ciRequired'' (VBool True) ''locked''
              ''Continuous integration mandatory'']
      else [])"
  by (auto simp: rules_at_def engineering_def Rule_def)

lemma main_effective_policies:
  "\<exists>result. compute_effective_policies main_entities (profile_id ml_team) = Some result
     \<and> result ''policies.compliance.gdpr'' = None
     \<and> result ''policies.security.encryption.minBits'' = None
     \<and> result ''policies.ai.allowedModels'' = None
     \<and> map_option eff_source (result ''policies.development.ciRequired'') = Some ''Engineering''
     \<and> map_option eff_source (result ''policies.ml.experimentTracking'') = Some ''ML Team''"
proof -
  have id: "profile_id ml_team = ''did:a2p:entity:local:local:acme-ml-team''"
    by (simp add: ml_team_def)
  have names: "display_name engineering = ''Engineering''" "display_name ml_team = ''ML Team''"
    by (simp_all add: engineering_def ml_team_def)
  from compute_on_chain[OF chain_main] obtain result where
    c: "compute_effective_policies main_entities ''did:a2p:entity:local:local:acme-ml-team''
     = Some result"
    and r: "\<And>path. result path = nearest_rule main_entities path
       [''did:a2p:entity:local:local:acme-ml-team'',
        ''did:a2p:entity:local:local:acme-engineering'',
        ''did:a2p:entity:local:local:acme-corp'']"
    by blast
  have "result ''policies.compliance.gdpr'' = None"
    "result ''policies.security.encryption.minBits'' = None"
    "result ''policies.ai.allowedModels'' = None"
    "map_option eff_source (result ''policies.development.ciRequired'') = Some ''Engineering''"
    "map_option eff_source (result ''policies.ml.experimentTracking'') = Some ''ML Team''"
    by (simp_all add: r lookup_main rules_at_ml_team rules_at_engineering names Let_def)
  with c show ?thesis unfolding id by blast
qed

section \<open>The claims\<close>

subsection \<open>C1: a locked rule binds every descendant\<close>

text \<open>
  C1, as claimed: whenever a strict ancestor has a \<^verbatim>\<open>locked\<close> rule at the path with
  value \<open>V\<close> and the proposed value is not equal to \<open>V\<close>, the call returns
  \<^verbatim>\<open>allowed: False\<close>. Two inputs show otherwise. In the first the organisation locks
  \<^verbatim>\<open>bits\<close> at 256 and the department, which is checked before it, has a \<^verbatim>\<open>min\<close>
  rule whose value is the string \<^verbatim>\<open>"128"\<close>: proposing 128 raises \<^verbatim>\<open>TypeError\<close>
  in \<^verbatim>\<open>128 < "128"\<close> and nothing is returned. In the second \<^verbatim>\<open>gdpr\<close> is locked at
  \<^verbatim>\<open>True\<close> and the proposed value is the integer 1: Python's \<^verbatim>\<open>!=\<close> takes the two
  for equal, and the change is allowed.
\<close>

theorem locked_rule_counterexample:
  "ancestor_of quoted_entities ''org'' ''team''
   \<and> quoted_entities ''org'' = Some quoted_org
   \<and> Rule ''q1'' ''bits'' (VInt 256) ''locked'' ''baseline'' \<in> set (enforced_rules quoted_org)
   \<and> \<not> py_eq (VInt 128) (VInt 256)
   \<and> validate_policy_change quoted_entities ''team'' ''bits'' (VInt 128) = Some (Inl TypeError)
   \<and> VInt 1 \<noteq> VBool True
   \<and> validate_policy_change org_entities ''team'' ''gdpr'' (VInt 1) = Some (Inr Allowed)"
proof -
  have "ancestor_of quoted_entities ''org'' ''team''"
    using chain_ancestors[OF chain_quoted, of "''org''"] by simp
  moreover have "validate_policy_change quoted_entities ''team'' ''bits'' (VInt 128)
                 = Some (Inl TypeError)"
    by (simp add: validate_on_chain[OF chain_quoted] lookup_quoted quoted_org_def
          quoted_dept_def Entity_def Rule_def check_rule_def py_lt_def)
  moreover have "validate_policy_change org_entities ''team'' ''gdpr'' (VInt 1)
                 = Some (Inr Allowed)"
    by (simp add: validate_on_chain[OF chain_org] lookup_org org_profile_def dept_profile_def
          Entity_def Rule_def check_rule_def)
  ultimately show ?thesis
    by (simp add: lookup_quoted) (simp add: quoted_org_def Entity_def)
qed

text \<open>
  C1, amended: in a tree, when a strict ancestor of the entity, at any depth, has a
  \<^verbatim>\<open>locked\<close> rule at the path and the proposed value differs from the rule's value
  under Python's \<^verbatim>\<open>==\<close>, the call never allows the change: it returns
  \<^verbatim>\<open>allowed: False\<close>, unless the check of some ancestor rule raises \<^verbatim>\<open>TypeError\<close>,
  in which case the call raises.
\<close>

theorem locked_rule_denies:
  assumes "tree_store entities"
    and "ancestor_of entities a entity_id"
    and "entities a = Some e" and "rule \<in> set (enforced_rules e)"
    and "rule_enforcement rule = ''locked''" and "rule_path rule = path"
    and "\<not> py_eq new_value (rule_value rule)"
  shows "(\<exists>why. validate_policy_change entities entity_id path new_value
                  = Some (Inr (Denied why)))
         \<or> (validate_policy_change entities entity_id path new_value = Some (Inl TypeError)
            \<and> \<not> no_type_error entities entity_id path new_value)"
proof -
  from validate_on_tree[OF assms(1)] obtain xs where
    v: "validate_policy_change entities entity_id path new_value
        = Some (check_ancestors entities entity_id path new_value xs)"
    and self: "entity_id \<notin> set xs"
    and anc: "\<And>a. a \<in> set xs \<longleftrightarrow> ancestor_of entities a entity_id"
    by blast
  from assms(5-7) have "check_rule path new_value e rule \<noteq> Inr None"
    by (simp add: check_rule_def)
  with assms(3,4) have "\<not> passes entities path new_value a"
    by (auto simp: passes_iff)
  with assms(2) anc self
  have not_allowed: "check_ancestors entities entity_id path new_value xs \<noteq> Inr Allowed"
    by (auto simp: check_ancestors_allowed_iff)
  show ?thesis
  proof (cases "check_ancestors entities entity_id path new_value xs")
    case (Inl err)
    from check_ancestors_error[OF this] obtain b eb where
      b: "b \<in> set xs" "entities b = Some eb"
      and "check_rules path new_value eb (enforced_rules eb) = Inl err"
      by blast
    from check_rules_error[OF this(3)] obtain r where
      "r \<in> set (enforced_rules eb)" "check_rule path new_value eb r = Inl err" by blast
    with b anc have "\<not> no_type_error entities entity_id path new_value"
      by (cases err) (auto simp: no_type_error_def)
    with Inl v show ?thesis by (cases err) simp
  next
    case (Inr res)
    with not_allowed v show ?thesis by (cases res) auto
  qed
qed

theorem locked_rule_denies_witness:
  "tree_store org_entities
   \<and> ancestor_of org_entities ''org'' ''team''
   \<and> \<not> py_eq (VBool False) (VBool True)
   \<and> validate_policy_change org_entities ''team'' ''gdpr'' (VBool False)
     = Some (Inr (Denied [Lit ''\"gdpr\" is locked by Dept: department rule'']))"
proof -
  have anc: "ancestor_of org_entities ''org'' ''team''" by (simp add: ancestor_org)
  have rule: "Rule ''r1'' ''gdpr'' (VBool True) ''locked'' ''legal''
              \<in> set (enforced_rules org_profile)"
    by (simp add: org_profile_def Entity_def)
  have "(\<exists>why. validate_policy_change org_entities ''team'' ''gdpr'' (VBool False)
                 = Some (Inr (Denied why)))
        \<or> (validate_policy_change org_entities ''team'' ''gdpr'' (VBool False)
             = Some (Inl TypeError)
           \<and> \<not> no_type_error org_entities ''team'' ''gdpr'' (VBool False))"
    by (rule locked_rule_denies[OF tree_org_entities anc lookup_org(1) rule])
       (simp_all add: Rule_def)
  with tree_org_entities anc validate_org_gdpr show ?thesis by simp
qed

subsection \<open>C2: termination of the ancestry walk\<close>




subsection \<open>C3: which reason is returned\<close>




subsection \<open>C4: subset rules\<close>

text \<open>
  C4: against an ancestor's \<^verbatim>\<open>subset\<close> rule with list \<open>L\<close> the call returns
  \<^verbatim>\<open>allowed: True\<close> when every element of the proposed list is in \<open>L\<close>, and
  \<^verbatim>\<open>allowed: False\<close>, naming the invalid elements, when some element is not. For
  lists of strings this is what the code does (\<open>check_rule_subset_strings\<close>,
  \<open>subset_narrowing_examples\<close>). For other elements the call raises instead: with the
  allowed ports 80 and 443, proposing 80 and 8080 finds 8080 invalid and then fails in
  \<^verbatim>\<open>", ".join(invalid_items)\<close>, which accepts strings only.
\<close>

theorem subset_join_type_error:
  "pair_entities ''org'' = Some parent_profile
   \<and> parent_id pair_entities ''team'' = Some ''org''
   \<and> Rule ''p1'' ''ports'' (VList [VInt 80, VInt 443]) ''subset'' ''open ports''
       \<in> set (enforced_rules parent_profile)
   \<and> filter (\<lambda>v. \<not> py_in v [VInt 80, VInt 443]) [VInt 80, VInt 8080] = [VInt 8080]
   \<and> validate_policy_change pair_entities ''team'' ''ports'' (VList [VInt 80, VInt 8080])
     = Some (Inl TypeError)"
proof -
  have "validate_policy_change pair_entities ''team'' ''ports'' (VList [VInt 80, VInt 8080])
        = Some (Inl TypeError)"
    by (simp add: validate_pair parent_profile_def Entity_def Rule_def check_rule_def
          py_in_def py_join_def)
  then show ?thesis
    by (simp add: lookup_pair parent_pair py_in_def) (simp add: parent_profile_def Entity_def)
qed

subsection \<open>C5: effective policies\<close>

text \<open>
  C5: for an entity whose ancestor chain is finite, the map returned by
  \<^verbatim>\<open>compute_effective_policies\<close> binds a path exactly when some member of the chain
  (the entity itself or an ancestor) has an enforced rule at that path, and then holds
  the value, the display name of the source and the enforcement of the rule of the
  member closest to the entity (the last such rule of that member's list), with
  \<^verbatim>\<open>locked\<close> true exactly when the enforcement is \<^verbatim>\<open>locked\<close>.
\<close>

theorem effective_policy_nearest_leaf:
  assumes "chain entities entity_id ancestors"
  shows "\<exists>result. compute_effective_policies entities entity_id = Some result
           \<and> (\<forall>path. result path = nearest_rule entities path (entity_id # ancestors))
           \<and> (\<forall>path. path \<in> dom result \<longleftrightarrow>
                 (\<exists>a e r. (a = entity_id \<or> ancestor_of entities a entity_id)
                     \<and> entities a = Some e
                     \<and> r \<in> set (enforced_rules e) \<and> rule_path r = path))"
proof -
  from compute_on_chain[OF assms] obtain result where
    c: "compute_effective_policies entities entity_id = Some result"
    and r: "\<And>path. result path = nearest_rule entities path (entity_id # ancestors)"
    by blast
  have "path \<in> dom result \<longleftrightarrow>
          (\<exists>a e r. (a = entity_id \<or> ancestor_of entities a entity_id)
              \<and> entities a = Some e
              \<and> r \<in> set (enforced_rules e) \<and> rule_path r = path)" for path
  proof -
    have "path \<in> dom result \<longleftrightarrow> nearest_rule entities path (entity_id # ancestors) \<noteq> None"
      by (simp add: dom_def r)
    also have "\<dots> \<longleftrightarrow> (\<exists>a e r. a \<in> set (entity_id # ancestors) \<and> entities a = Some e
                 \<and> r \<in> set (enforced_rules e) \<and> rule_path r = path)"
      by (rule nearest_rule_bound_iff)
    also have "\<dots> \<longleftrightarrow> (\<exists>a e r. (a = entity_id \<or> ancestor_of entities a entity_id)
              \<and> entities a = Some e
              \<and> r \<in> set (enforced_rules e) \<and> rule_path r = path)"
      using chain_ancestors[OF assms] by auto
    finally show ?thesis .
  qed
  with c r show ?thesis by blast
qed

theorem effective_policy_nearest_leaf_witness:
  "chain org_entities ''team'' [''dept'', ''org'']
   \<and> (\<exists>result. compute_effective_policies org_entities ''team'' = Some result
        \<and> result ''gdpr'' = Some \<lparr> eff_value = VBool True, eff_source = ''Dept'',
                                    eff_enforcement = ''locked'', eff_locked = True \<rparr>
        \<and> result ''bits'' = Some \<lparr> eff_value = VInt 256, eff_source = ''Org'',
                                    eff_enforcement = ''min'', eff_locked = False \<rparr>
        \<and> result ''ports'' = None)"
proof -
  from effective_policy_nearest_leaf[OF chain_org] obtain result where
    "compute_effective_policies org_entities ''team'' = Some result"
    and "\<And>path. result path = nearest_rule org_entities path [''team'', ''dept'', ''org'']"
    by blast
  then show ?thesis
    by (simp add: chain_org lookup_org rules_at_def org_profile_def dept_profile_def
          team_profile_def Entity_def Rule_def)
qed

subsection \<open>C6: unknown entity ids\<close>

text \<open>
  C6, as claimed: with an entity id that the store does not hold, the operations fail
  with a NotFound error instead of succeeding with an empty result. The code has no
  such error: it reads the store with \<^verbatim>\<open>entities.get\<close>, and an unknown id yields the
  empty map and \<^verbatim>\<open>allowed: True\<close>.
\<close>

theorem unknown_entity_counterexample:
  "org_entities ''ghost'' = None
   \<and> compute_effective_policies org_entities ''ghost'' = Some Map.empty
   \<and> validate_policy_change org_entities ''ghost'' ''gdpr'' (VBool False) = Some (Inr Allowed)"
proof -
  have "parent_id org_entities ''ghost'' = None" by (simp add: parent_id_def lookup_org)
  then have "chain org_entities ''ghost'' []" by (rule chain.root)
  then have "get_ancestry org_entities ''ghost'' = Some [''ghost'']"
    by (rule get_ancestry_chain)
  then show ?thesis
    by (simp add: compute_effective_policies_def validate_policy_change_def lookup_org)
qed

text \<open>
  C6, amended: with an entity id that the store does not hold, neither operation fails:
  \<^verbatim>\<open>compute_effective_policies\<close> returns the empty map and
  \<^verbatim>\<open>validate_policy_change\<close> returns \<^verbatim>\<open>allowed: True\<close>, as for an entity without
  applicable rules.
\<close>

theorem unknown_entity_returns_empty:
  assumes "entities entity_id = None"
  shows "compute_effective_policies entities entity_id = Some Map.empty
         \<and> validate_policy_change entities entity_id path new_value = Some (Inr Allowed)"
proof -
  from assms have "parent_id entities entity_id = None" by (simp add: parent_id_def)
  then have "chain entities entity_id []" by (rule chain.root)
  then have "get_ancestry entities entity_id = Some [entity_id]" by (rule get_ancestry_chain)
  with assms show ?thesis
    by (simp add: compute_effective_policies_def validate_policy_change_def)
qed

theorem unknown_entity_returns_empty_witness:
  "pair_entities ''sales'' = None
   \<and> compute_effective_policies pair_entities ''sales'' = Some Map.empty
   \<and> validate_policy_change pair_entities ''sales'' ''ports'' (VList [VInt 22])
     = Some (Inr Allowed)"
  using unknown_entity_returns_empty[of pair_entities "''sales''" "''ports''" "VList [VInt 22]"]
    lookup_pair(3)
  by simp

subsection \<open>C7: additive, narrowable and overridable rules\<close>

text \<open>
  C7, as claimed: for every entity, if every enforced rule of a strict ancestor at the
  path is \<^verbatim>\<open>additive\<close>, \<^verbatim>\<open>narrowable\<close> or \<^verbatim>\<open>overridable\<close>, the call returns
  \<^verbatim>\<open>allowed: True\<close>. Not for every entity: where the parent pointers form a cycle
  the call returns nothing, although no entity of the store has any rule at all.
\<close>

theorem unenforced_kinds_cycle_counterexample:
  "\<not> (\<exists>x e r. cyclic_entities x = Some e \<and> r \<in> set (enforced_rules e))
   \<and> validate_policy_change cyclic_entities ''a'' ''blocked'' (VList []) = None"
proof -
  have pa: "parent_id cyclic_entities ''a'' = Some ''b''"
    and pb: "parent_id cyclic_entities ''b'' = Some ''a''"
    by (simp_all add: parent_id_def cyclic_entities_def Entity_def)
  have "get_ancestry cyclic_entities ''a'' = None"
  proof (rule ccontr)
    assume "get_ancestry cyclic_entities ''a'' \<noteq> None"
    then obtain xs where c: "chain cyclic_entities ''a'' xs"
      using get_ancestry_returns by fastforce
    from c pa obtain ys where xs: "xs = ''b'' # ys" and "chain cyclic_entities ''b'' ys"
      by (auto elim: chain.cases)
    with pb obtain zs where "ys = ''a'' # zs" by (auto elim: chain.cases)
    with xs have "''a'' \<in> set xs" by simp
    with chain_not_self[OF c] show False by simp
  qed
  then have "validate_policy_change cyclic_entities ''a'' ''blocked'' (VList []) = None"
    by (simp add: validate_policy_change_def)
  moreover have "\<not> (\<exists>x e r. cyclic_entities x = Some e \<and> r \<in> set (enforced_rules e))"
    by (auto simp: cyclic_entities_def Entity_def split: if_splits)
  ultimately show ?thesis by simp
qed

text \<open>
  C7, amended: for every entity whose parent chain is finite, if every enforced rule of
  a strict ancestor at the path has the enforcement \<^verbatim>\<open>additive\<close>,
  \<^verbatim>\<open>narrowable\<close> or \<^verbatim>\<open>overridable\<close>, the call returns \<^verbatim>\<open>allowed: True\<close> for
  every proposed value: the three kinds have no validation branch.
\<close>

theorem unenforced_kinds_allow:
  assumes "chain entities entity_id ancestors"
    and "\<And>a e r. ancestor_of entities a entity_id \<Longrightarrow> entities a = Some e \<Longrightarrow>
           r \<in> set (enforced_rules e) \<Longrightarrow> rule_path r = path \<Longrightarrow>
           rule_enforcement r \<in> {''additive'', ''narrowable'', ''overridable''}"
  shows "validate_policy_change entities entity_id path new_value = Some (Inr Allowed)"
proof -
  have "\<forall>a\<in>set ancestors. passes entities path new_value a"
  proof
    fix a assume "a \<in> set ancestors"
    then have a: "ancestor_of entities a entity_id" by (simp add: chain_ancestors[OF assms(1)])
    show "passes entities path new_value a"
      unfolding passes_iff
    proof (intro allI impI)
      fix e r assume e: "entities a = Some e" and r: "r \<in> set (enforced_rules e)"
      show "check_rule path new_value e r = Inr None"
      proof (cases "rule_path r = path")
        case True
        from assms(2)[OF a e r True] show ?thesis by (rule check_rule_unenforced)
      next
        case False
        then show ?thesis by (rule check_rule_other_path)
      qed
    qed
  qed
  with chain_not_self[OF assms(1)]
  have "check_ancestors entities entity_id path new_value ancestors = Inr Allowed"
    by (simp add: check_ancestors_allowed_iff)
  with validate_on_chain[OF assms(1)] show ?thesis by simp
qed

theorem unenforced_kinds_allow_witness:
  "chain pair_entities ''team'' [''org'']
   \<and> validate_policy_change pair_entities ''team'' ''blocked'' (VList []) = Some (Inr Allowed)"
proof -
  have "validate_policy_change pair_entities ''team'' ''blocked'' (VList [])
        = Some (Inr Allowed)"
  proof (rule unenforced_kinds_allow[OF chain_pair])
    fix a e r
    assume a: "ancestor_of pair_entities a ''team''"
      and e: "pair_entities a = Some e"
      and r: "r \<in> set (enforced_rules e)" "rule_path r = ''blocked''"
    from a have "a = ''org''" by (simp add: ancestor_pair)
    with e r show "rule_enforcement r \<in> {''additive'', ''narrowable'', ''overridable''}"
      by (auto simp: lookup_pair parent_profile_def Entity_def Rule_def)
  qed
  with chain_pair show ?thesis by simp
qed

subsection \<open>C8: allowed exactly when no ancestor rule is violated\<close>




subsection \<open>C9: values of the wrong type\<close>

text \<open>
  C9: a proposed value of the wrong type bypasses enforcement. If it is not a number,
  no \<^verbatim>\<open>min\<close> or \<^verbatim>\<open>max\<close> rule denies it; if it is not a list, or the value of the
  rule is not a list, no \<^verbatim>\<open>subset\<close> rule denies it: the check of such a rule does
  nothing, and the call returns what it returns on the store with every such rule taken
  out. A string proposed against a numeric minimum is allowed.
\<close>

theorem mismatched_rules_bypassed:
  "(mismatched new_value rule \<longrightarrow> check_rule path new_value entity rule = Inr None)
   \<and> validate_policy_change entities entity_id path new_value
     = validate_policy_change (keep_rules (\<lambda>r. \<not> mismatched new_value r) entities)
         entity_id path new_value"
proof
  show "mismatched new_value rule \<longrightarrow> check_rule path new_value entity rule = Inr None"
    by (simp add: check_rule_mismatched)
  show "validate_policy_change entities entity_id path new_value
        = validate_policy_change (keep_rules (\<lambda>r. \<not> mismatched new_value r) entities)
            entity_id path new_value"
    by (rule validate_keep_rules[symmetric]) (simp add: check_rule_mismatched)
qed

theorem mismatched_rules_bypassed_witness:
  "mismatched (VStr ''strong'') (Rule ''p4'' ''bits'' (VInt 256) ''min'' ''baseline'')
   \<and> check_rule ''bits'' (VStr ''strong'') parent_profile
       (Rule ''p4'' ''bits'' (VInt 256) ''min'' ''baseline'') = Inr None
   \<and> validate_policy_change pair_entities ''team'' ''bits'' (VStr ''strong'')
     = Some (Inr Allowed)"
proof -
  have m: "mismatched (VStr ''strong'') (Rule ''p4'' ''bits'' (VInt 256) ''min'' ''baseline'')"
    by (simp add: mismatched_def Rule_def)
  have "validate_policy_change pair_entities ''team'' ''bits'' (VStr ''strong'')
        = Some (Inr Allowed)"
    by (simp add: validate_pair parent_profile_def Entity_def Rule_def check_rule_def)
  with m mismatched_rules_bypassed[of "VStr ''strong''"
      "Rule ''p4'' ''bits'' (VInt 256) ''min'' ''baseline''" "''bits''" parent_profile
      pair_entities "''team''"]
  show ?thesis by simp
qed

subsection \<open>C10: rules bind their exact path only\<close>

text \<open>
  C10: a rule constrains a proposed change only when its path string equals the
  changed path. A rule at any other path, a dot-prefix or a dot-descendant of the
  changed path included, does nothing in the check, and the call returns what it
  returns on the store that keeps only the rules at exactly the changed path.
\<close>

theorem only_exact_path_constrains:
  "(rule_path rule \<noteq> path \<longrightarrow> check_rule path new_value entity rule = Inr None)
   \<and> validate_policy_change entities entity_id path new_value
     = validate_policy_change (keep_rules (\<lambda>r. rule_path r = path) entities)
         entity_id path new_value"
proof
  show "rule_path rule \<noteq> path \<longrightarrow> check_rule path new_value entity rule = Inr None"
    by (simp add: check_rule_other_path)
  show "validate_policy_change entities entity_id path new_value
        = validate_policy_change (keep_rules (\<lambda>r. rule_path r = path) entities)
            entity_id path new_value"
    by (rule validate_keep_rules[symmetric]) (simp add: check_rule_other_path)
qed

theorem only_exact_path_constrains_witness:
  "check_rule ''policies.data.retention'' (VInt 100) parent_profile
     (Rule ''p5'' ''policies.data'' (VStr ''EU'') ''locked'' ''residency'') = Inr None
   \<and> check_rule ''policies.data.retention'' (VInt 100) parent_profile
     (Rule ''p6'' ''policies.data.retention.maxMonths'' (VInt 36) ''max'' ''minimization'')
     = Inr None
   \<and> validate_policy_change pair_entities ''team'' ''policies.data.retention'' (VInt 100)
     = Some (Inr Allowed)"
proof -
  have "validate_policy_change pair_entities ''team'' ''policies.data.retention'' (VInt 100)
        = Some (Inr Allowed)"
    by (simp add: validate_pair parent_profile_def Entity_def Rule_def check_rule_def)
  with only_exact_path_constrains[of
      "Rule ''p5'' ''policies.data'' (VStr ''EU'') ''locked'' ''residency''"
      "''policies.data.retention''" "VInt 100" parent_profile pair_entities "''team''"]
    only_exact_path_constrains[of
      "Rule ''p6'' ''policies.data.retention.maxMonths'' (VInt 36) ''max'' ''minimization''"
      "''policies.data.retention''" "VInt 100" parent_profile pair_entities "''team''"]
  show ?thesis by (simp add: Rule_def)
qed

end
